theory Spec2Isabelle
  imports Complex_Main "HOL-Library.Sublist"
begin

section \<open>Reserved token ids (tokenizer.py)\<close>

definition NUL :: nat where "NUL = 0"
definition PAD :: nat where "PAD = 1"
definition BOS :: nat where "BOS = 2"
definition EOS :: nat where "EOS = 3"
definition UNK :: nat where "UNK = 4"

section \<open>The log-sum-exp combiner of the prefix search (models.py, lines 330--331)\<close>

text \<open>
  The combiner is part of the beam search that the source keeps as a comment:
  \<^verbatim>\<open>def log_aplusb(a, b): return max(a, b) + math.log1p(math.exp(-math.fabs(a-b)))\<close>.
  Floats are read as real numbers; \<open>log1p x\<close> is \<open>ln (1 + x)\<close>.
\<close>

definition log1p :: "real \<Rightarrow> real" where
  "log1p x = ln (1 + x)"

definition log_aplusb :: "real \<Rightarrow> real \<Rightarrow> real" where
  "log_aplusb a b = max a b + log1p (exp (- \<bar>a - b\<bar>))"

section \<open>Tensors, the recurrent layers and greedy decoding (models.py)\<close>

text \<open>
  Floats are read as real numbers. The learned layers are parameters: an LSTM layer is its
  cell, a function from the input frame and the state \<open>(h, c)\<close> to the new state, run
  over the time axis from left to right (the layers are unidirectional); a multi-layer LSTM
  feeds the outputs of one layer to the next; its state is indexed (layer, batch). Dropout
  is the identity outside training. An absent state is all zeros.
\<close>

datatype error = RuntimeError | ValueError | ZeroDivisionError | TypeError

type_synonym vec = "real list"
type_synonym cell = "vec \<Rightarrow> vec \<times> vec \<Rightarrow> vec \<times> vec"

text \<open>
  \<open>lstm_seq\<close> runs one layer's cell over the frames of one batch element and returns the
  outputs (the \<open>h\<close> after each frame) and the last state; \<open>lstm_layer\<close> does so for every
  element of the batch; \<open>lstm\<close> stacks the layers, as \<open>nn.LSTM(..., batch_first=True)\<close>.
\<close>

fun lstm_seq :: "cell \<Rightarrow> vec list \<Rightarrow> vec \<times> vec \<Rightarrow> vec list \<times> (vec \<times> vec)" where
  "lstm_seq f [] s = ([], s)"
| "lstm_seq f (x # xs) s =
     (let s' = f x s; (ys, s'') = lstm_seq f xs s' in (fst s' # ys, s''))"

definition lstm_layer ::
  "cell \<Rightarrow> vec list list \<Rightarrow> vec list \<times> vec list \<Rightarrow> vec list list \<times> (vec list \<times> vec list)" where
  "lstm_layer f xs hc =
     (let rs = map (\<lambda>(x, s). lstm_seq f x s) (zip xs (zip (fst hc) (snd hc)))
      in (map fst rs, (map (fst \<circ> snd) rs, map (snd \<circ> snd) rs)))"

fun lstm ::
  "cell list \<Rightarrow> vec list list \<Rightarrow> vec list list \<times> vec list list
     \<Rightarrow> vec list list \<times> (vec list list \<times> vec list list)" where
  "lstm (f # fs) xs (h0 # h, c0 # c) =
     (let (ys, (h1, c1)) = lstm_layer f xs (h0, c0);
          (zs, (hs, cs)) = lstm fs ys (h, c)
      in (zs, (h1 # hs, c1 # cs)))"
| "lstm fs xs hc = (xs, ([], []))"

definition zeros :: "nat \<Rightarrow> nat \<Rightarrow> nat \<Rightarrow> vec list list \<times> vec list list" where
  "zeros layers batch hidden =
     (replicate layers (replicate batch (replicate hidden 0)),
      replicate layers (replicate batch (replicate hidden 0)))"

text \<open>
  One row of \<open>F.log_softmax(logits, dim=1)\<close> and of \<open>torch.max(probs, dim=1)\<close>: the maximal
  value and the index of its first occurrence. On an empty row \<open>torch.max\<close> raises; the
  caller checks that before it reads \<open>max_val\<close> and \<open>argmax\<close>.
\<close>

definition log_softmax :: "vec \<Rightarrow> vec" where
  "log_softmax v = map (\<lambda>x. x - ln (sum_list (map exp v))) v"

definition max_val :: "vec \<Rightarrow> real" where
  "max_val v = fold max (tl v) (hd v)"

fun first_index :: "'a \<Rightarrow> 'a list \<Rightarrow> nat" where
  "first_index a [] = 0"
| "first_index a (x # xs) = (if x = a then 0 else Suc (first_index a xs))"

definition argmax :: "vec \<Rightarrow> nat" where
  "argmax v = first_index (max_val v) v"

definition vadd :: "vec \<Rightarrow> vec \<Rightarrow> vec" where
  "vadd a b = map2 (+) a b"

subsection \<open>Time reduction and the layered recurrent stack (lines 10--66)\<close>

text \<open>
  A tensor of shape (batch, time, hidden) is a list of batch rows, each a list of frames,
  each frame a list of reals. \<open>shape1\<close> reads the time length off the first row, \<open>shape2\<close>
  the width off the first frame; floats are read as reals.
\<close>

definition shape1 :: "'a list list \<Rightarrow> nat" where
  "shape1 xs = (case xs of [] \<Rightarrow> 0 | r # _ \<Rightarrow> length r)"

definition shape2 :: "'a list list list \<Rightarrow> nat" where
  "shape2 xs = (case xs of [] \<Rightarrow> 0 | r # _ \<Rightarrow> shape1 r)"

definition groups_of :: "nat \<Rightarrow> 'a list \<Rightarrow> 'a list list" where
  "groups_of r row = map (\<lambda>g. take r (drop (g * r) row)) [0..<length row div r]"

definition mean_frames :: "nat \<Rightarrow> vec list \<Rightarrow> vec" where
  "mean_frames width frames =
     map (\<lambda>j. sum_list (map (\<lambda>frame. frame ! j) frames) / real (length frames)) [0..<width]"

text \<open>
  \<open>nn.functional.pad\<close> takes its padding as a flat sequence of integers. Its argument is
  typed here as the code builds it, a list of integer lists; any entry of that list is a
  list where an integer is required, and the call raises.
\<close>

definition functional_pad :: "vec list list \<Rightarrow> int list list \<Rightarrow> error + vec list list" where
  "functional_pad xs pad = (case pad of [] \<Rightarrow> Inr xs | p # ps \<Rightarrow> Inl TypeError)"

text \<open>
  \<open>TimeReduction.forward\<close>: the remainder by a zero factor raises; \<open>pad_shape\<close> is the nested
  list \<open>[[0, 0], [0, xlen % reduction_factor], [0, 0]]\<close> and goes to \<open>nn.functional.pad\<close>
  as it is; \<open>view(batch_size, -1, reduction_factor, hidden_size)\<close> raises unless the time
  length is a multiple of the factor; \<open>mean(dim=2)\<close> averages each group.
\<close>

definition TimeReduction_forward :: "nat \<Rightarrow> vec list list \<Rightarrow> error + vec list list" where
  "TimeReduction_forward reduction_factor xs =
     (let xlen = shape1 xs; hidden_size = shape2 xs
      in if reduction_factor = 0 then Inl ZeroDivisionError
         else
           let pad_shape = [[0, 0], [0, int (xlen mod reduction_factor)], [0, 0]]
           in case functional_pad xs pad_shape of
                Inl e \<Rightarrow> Inl e
              | Inr padded \<Rightarrow>
                  if shape1 padded mod reduction_factor \<noteq> 0 then Inl RuntimeError
                  else Inr (map (\<lambda>row. map (mean_frames hidden_size)
                                          (groups_of reduction_factor row)) padded))"

text \<open>
  \<open>LayerNormRNN\<close>: \<open>rnns\<close> holds one single-layer LSTM per layer (its cell), \<open>projs\<close> the
  per-layer module that \<open>__init__\<close> sets out to build (time reduction where configured,
  projection, dropout, layer normalisation), here any function on tensors. \<open>forward\<close> zips the two with
  the incoming states, and fails at \<open>hs, cs = zip(*new_hiddens)\<close> when no layer ran.
\<close>

type_synonym hidden = "vec list list \<times> vec list list"

record LayerNormRNN =
  rnns :: "cell list"
  projs :: "(vec list list \<Rightarrow> vec list list) list"
  rnn_hidden_size :: nat

definition rnn_apply :: "nat \<Rightarrow> cell \<Rightarrow> vec list list \<Rightarrow> hidden option \<Rightarrow> vec list list \<times> hidden" where
  "rnn_apply hidden_size rnn xs hidden =
     lstm [rnn] xs (case hidden of None \<Rightarrow> zeros 1 (length xs) hidden_size | Some hc \<Rightarrow> hc)"

definition LayerNormRNN_forward ::
  "LayerNormRNN \<Rightarrow> vec list list \<Rightarrow> hidden option list option
     \<Rightarrow> error + (vec list list \<times> (vec list list list \<times> vec list list list))" where
  "LayerNormRNN_forward self xs hiddens_arg =
     (let hiddens = (case hiddens_arg of None \<Rightarrow> replicate (length (rnns self)) None
                                        | Some hiddens \<Rightarrow> hiddens);
          (xs', new_hiddens) =
             fold (\<lambda>(rnn, proj, hidden) (xs, new_hiddens).
                      let (xs, new_hidden) = rnn_apply (rnn_hidden_size self) rnn xs hidden
                      in (xs, new_hiddens @ [new_hidden]))
                  (zip (rnns self) (zip (projs self) hiddens)) (xs, [])
      in if new_hiddens = [] then Inl ValueError
         else Inr (xs', (map fst new_hiddens, map snd new_hiddens)))"

subsection \<open>The transducer and its greedy decoder (lines 156--235)\<close>

text \<open>
  The \<open>Transducer\<close> module: encoder LSTM and \<open>encoder_fc\<close>, the embedding, the decoder
  (predictor) LSTM, the joint network and the blank id (\<open>NUL\<close> unless the constructor is
  given another).
\<close>

record model =
  enc_cells :: "cell list"
  encoder_fc :: "vec \<Rightarrow> vec"
  embed :: "nat \<Rightarrow> vec"
  dec_cells :: "cell list"
  joint :: "vec \<Rightarrow> vec"
  hidden_size :: nat
  blank :: nat

text \<open>
  The variables of the greedy loop: \<open>h_pre\<close> of shape (batch, 1, hidden), \<open>h\<close> and \<open>c\<close> of
  shape (layers, batch, hidden), and the Python lists \<open>y_seq\<close> and \<open>log_p\<close> with one
  batch-long entry per step.
\<close>

record dstate =
  h_pre :: "vec list list"
  h :: "vec list list"
  c :: "vec list list"
  y_seq :: "nat list list"
  log_p :: "real list list"

text \<open>
  \<^verbatim>\<open>old[pred != blank] = new[pred != blank]\<close> along the batch axis: the in-place update
  returns the new tensor.
\<close>

definition mask_assign :: "nat \<Rightarrow> nat list \<Rightarrow> 'a list \<Rightarrow> 'a list \<Rightarrow> 'a list" where
  "mask_assign blk pred old new =
     map (\<lambda>(p, old_b, new_b). if p \<noteq> blk then new_b else old_b) (zip pred (zip old new))"

text \<open>
  The body of the loop (lines 216--227) at encoder column \<open>enc_i = h_enc[:, i]\<close>.
\<close>

definition greedy_step :: "model \<Rightarrow> vec list \<Rightarrow> dstate \<Rightarrow> error + dstate" where
  "greedy_step M enc_i st =
     (let logits = map (joint M) (map2 vadd enc_i (map (\<lambda>r. r ! 0) (h_pre st)));
          probs = map log_softmax logits
      in if [] \<in> set probs then Inl RuntimeError
         else
           let prob = map max_val probs;
               pred = map argmax probs;
               embed_pred = map (\<lambda>p. [embed M p]) pred;
               (new_h_pre, (new_h, new_c)) = lstm (dec_cells M) embed_pred (h st, c st)
           in Inr \<lparr> h_pre = mask_assign (blank M) pred (h_pre st) new_h_pre,
                    h = map (\<lambda>(old, new). mask_assign (blank M) pred old new) (zip (h st) new_h),
                    c = map (\<lambda>(old, new). mask_assign (blank M) pred old new) (zip (c st) new_c),
                    y_seq = y_seq st @ [pred],
                    log_p = log_p st @ [prob] \<rparr>)"

text \<open>
  \<^verbatim>\<open>for i in range(h_enc.shape[1])\<close>, over the list of indices; an error ends the loop.
\<close>

fun greedy_loop :: "model \<Rightarrow> vec list list \<Rightarrow> nat list \<Rightarrow> dstate \<Rightarrow> error + dstate" where
  "greedy_loop M h_enc [] st = Inr st"
| "greedy_loop M h_enc (i # is) st =
     (case greedy_step M (map (\<lambda>r. r ! i) h_enc) st of
        Inl e \<Rightarrow> Inl e
      | Inr st' \<Rightarrow> greedy_loop M h_enc is st')"

text \<open>
  \<open>torch.stack(rows, dim=1)\<close> of equally long rows, and the Python slice \<open>seq[:seq_len]\<close>
  (a negative bound counts from the end).
\<close>

definition stack1 :: "'a list list \<Rightarrow> 'a list list" where
  "stack1 rows = map (\<lambda>b. map (\<lambda>r. r ! b) rows) [0..<shape1 rows]"

definition slice_to :: "'a list \<Rightarrow> int \<Rightarrow> 'a list" where
  "slice_to seq n = (if 0 \<le> n then take (nat n) seq else take (nat (int (length seq) + n)) seq)"

text \<open>
  Lines 206--211: the encoder with \<open>encoder_fc\<close> on every frame, and the predictor state
  after \<open>BOS\<close>. An empty batch carries no time axis in this representation and is read
  as having no frame.
\<close>

definition encoder :: "model \<Rightarrow> vec list list \<Rightarrow> vec list list" where
  "encoder M xs =
     (let (h_enc, _) = lstm (enc_cells M) xs (zeros (length (enc_cells M)) (length xs) (hidden_size M))
      in map (map (encoder_fc M)) h_enc)"

definition decoder_init :: "model \<Rightarrow> nat \<Rightarrow> dstate" where
  "decoder_init M batch =
     (let bos = replicate batch [BOS];
          (h_pre0, (h0, c0)) = lstm (dec_cells M) (map (map (embed M)) bos)
                                 (zeros (length (dec_cells M)) batch (hidden_size M))
      in \<lparr> h_pre = h_pre0, h = h0, c = c0, y_seq = [], log_p = [] \<rparr>)"

text \<open>
  Lines 212--229: the loop, then \<open>torch.stack\<close>, which raises on the empty list (no
  frame), and the sum of the stacked log-probabilities over the time axis.
\<close>

definition greedy_run :: "model \<Rightarrow> vec list list \<Rightarrow> error + (nat list list \<times> real list)" where
  "greedy_run M xs =
     (let h_enc = encoder M xs in
      case greedy_loop M h_enc [0..<shape1 h_enc] (decoder_init M (length xs)) of
        Inl e \<Rightarrow> Inl e
      | Inr st \<Rightarrow>
          if y_seq st = [] then Inl RuntimeError
          else Inr (stack1 (y_seq st), map sum_list (stack1 (log_p st))))"

text \<open>
  Lines 230--235: \<open>zip(y_seq, xlen)\<close> pairs every record with its valid length, the record
  is cut and its blank tokens are filtered out; the scores are negated.
\<close>

definition greedy_decode ::
  "model \<Rightarrow> vec list list \<Rightarrow> int list \<Rightarrow> error + (nat list list \<times> real list)" where
  "greedy_decode M xs xlen =
     (case greedy_run M xs of
        Inl e \<Rightarrow> Inl e
      | Inr (y_stack, log_sum) \<Rightarrow>
          Inr (map (\<lambda>(seq, seq_len). filter (\<lambda>tok. tok \<noteq> blank M) (slice_to seq seq_len))
                 (zip y_stack xlen),
               map uminus log_sum))"

subsection \<open>One batch element of the decoder\<close>

text \<open>
  The batch elements do not interact. The following functions follow one element through
  the same computation: \<open>lstm_one\<close> is the multi-layer LSTM on the element's frames and
  its own (layer-indexed) state, \<open>step_one\<close> one turn of the greedy loop, \<open>run_one\<close> the
  loop over the element's encoder frames, \<open>trace_one\<close> the chosen log-probability and token
  of every step. They are used to state what \<open>greedy_decode\<close> returns for an element;
  the lemmas below prove that the batched model computes exactly this.
\<close>

fun lstm_one :: "cell list \<Rightarrow> vec list \<Rightarrow> vec list \<times> vec list \<Rightarrow> vec list \<times> (vec list \<times> vec list)" where
  "lstm_one (f # fs) x (h0 # hs, c0 # cs) =
     (let (y, (h1, c1)) = lstm_seq f x (h0, c0);
          (z, (hs', cs')) = lstm_one fs y (hs, cs)
      in (z, (h1 # hs', c1 # cs')))"
| "lstm_one fs x hc = (x, ([], []))"

definition col :: "nat \<Rightarrow> 'a list list \<Rightarrow> 'a list" where
  "col b rows = map (\<lambda>r. r ! b) rows"

type_synonym pstate = "vec list \<times> vec list \<times> vec list"

definition step_one :: "model \<Rightarrow> vec \<Rightarrow> pstate \<Rightarrow> (real \<times> nat) \<times> pstate" where
  "step_one M e s =
     (case s of (hp, hh, cc) \<Rightarrow>
        let probs = log_softmax (joint M (vadd e (hp ! 0)));
            prob = max_val probs;
            pred = argmax probs;
            (new_hp, (new_hh, new_cc)) = lstm_one (dec_cells M) [embed M pred] (hh, cc)
        in ((prob, pred), if pred \<noteq> blank M then (new_hp, new_hh, new_cc) else (hp, hh, cc)))"

fun run_one :: "model \<Rightarrow> vec list \<Rightarrow> pstate \<Rightarrow> (real \<times> nat) list \<times> pstate" where
  "run_one M [] s = ([], s)"
| "run_one M (e # es) s =
     (let (out, s') = step_one M e s; (outs, s'') = run_one M es s' in (out # outs, s''))"

definition wf_state :: "model \<Rightarrow> nat \<Rightarrow> dstate \<Rightarrow> bool" where
  "wf_state M B st \<longleftrightarrow>
     length (h_pre st) = B \<and> length (h st) = length (dec_cells M) \<and>
     length (c st) = length (dec_cells M) \<and>
     (\<forall>l\<in>set (h st). length l = B) \<and> (\<forall>l\<in>set (c st). length l = B) \<and>
     (\<forall>r\<in>set (y_seq st). length r = B) \<and> (\<forall>r\<in>set (log_p st). length r = B)"

definition proj :: "nat \<Rightarrow> dstate \<Rightarrow> pstate" where
  "proj b st = (h_pre st ! b, col b (h st), col b (c st))"

definition zeros_one :: "nat \<Rightarrow> nat \<Rightarrow> vec list \<times> vec list" where
  "zeros_one layers hidden =
     (replicate layers (replicate hidden 0), replicate layers (replicate hidden 0))"

definition init_one :: "model \<Rightarrow> pstate" where
  "init_one M =
     (let (hp, (hh, cc)) = lstm_one (dec_cells M) [embed M BOS]
                             (zeros_one (length (dec_cells M)) (hidden_size M))
      in (hp, hh, cc))"

definition encode_one :: "model \<Rightarrow> vec list \<Rightarrow> vec list" where
  "encode_one M x =
     map (encoder_fc M)
       (fst (lstm_one (enc_cells M) x (zeros_one (length (enc_cells M)) (hidden_size M))))"

definition trace_one :: "model \<Rightarrow> vec list \<Rightarrow> (real \<times> nat) list" where
  "trace_one M x = fst (run_one M (encode_one M x) (init_one M))"

definition rect :: "'a list list \<Rightarrow> bool" where
  "rect xs \<longleftrightarrow> (\<forall>r\<in>set xs. length r = shape1 xs)"

definition nonpos :: "dstate \<Rightarrow> bool" where
  "nonpos st \<longleftrightarrow> (\<forall>r\<in>set (log_p st). \<forall>x\<in>set r. x \<le> 0)"

section \<open>The character tokenizer (tokenizer.py)\<close>

text \<open>
  \<open>DEFAULT_TOKEN2ID\<close> and \<open>CharTokenizer.__init__\<close>. A dictionary from tokens (strings) to
  ids is a map; a character of \<open>valid_tokens\<close> is the one-character string \<open>[ch]\<close>.
  \<open>string.ascii_lowercase\<close> and \<open>string.punctuation\<close> are the constants of Python's library.
\<close>

definition NUL_token :: string where "NUL_token = ''<nul>''"
definition PAD_token :: string where "PAD_token = ''<pad>''"
definition BOS_token :: string where "BOS_token = ''<bos>''"
definition EOS_token :: string where "EOS_token = ''<eos>''"
definition UNK_token :: string where "UNK_token = ''<unk>''"

definition DEFAULT_TOKEN2ID :: "string \<rightharpoonup> nat" where
  "DEFAULT_TOKEN2ID =
     [NUL_token \<mapsto> NUL, PAD_token \<mapsto> PAD, BOS_token \<mapsto> BOS, EOS_token \<mapsto> EOS, UNK_token \<mapsto> UNK]"

definition ascii_lowercase :: string where
  "ascii_lowercase = ''abcdefghijklmnopqrstuvwxyz''"

definition punctuation :: string where
  \<open>punctuation =
     ''!"#$%&'' @ [CHR 0x27] @ ''()*+,-./:;<=>?@['' @ [CHR 0x5C] @ '']^_`{|}~''\<close>

definition valid_tokens :: string where
  "valid_tokens = ascii_lowercase @ punctuation @ '' ''"

text \<open>
  \<^verbatim>\<open>for idx, token in enumerate(valid_tokens): self.token2id[token] = idx + 4\<close>
\<close>

definition CharTokenizer_token2id :: "string \<rightharpoonup> nat" where
  "CharTokenizer_token2id =
     fold (\<lambda>(idx, token) token2id. token2id([token] \<mapsto> idx + 4))
       (enumerate 0 valid_tokens) DEFAULT_TOKEN2ID"

section \<open>A small transducer for evaluation\<close>

text \<open>
  Vocabulary of eight tokens, hidden width one. The encoder passes each frame through, the
  decoder cell keeps \<open>h\<close> and adds the embedded token to \<open>c\<close>, and the joint network
  prefers token 3 on the frame \<open>[1]\<close> and blank on every other frame.
\<close>

definition demo_enc_cell :: cell where
  "demo_enc_cell x s = (x, snd s)"

definition demo_dec_cell :: cell where
  "demo_dec_cell x s = (fst s, map2 (+) (snd s) x)"

definition demo_joint :: "vec \<Rightarrow> vec" where
  "demo_joint v = (if v = [1] then [0, 0, 0, 1, 0, 0, 0, 0] else [1, 0, 0, 0, 0, 0, 0, 0])"

definition demo_model :: model where
  "demo_model = \<lparr> enc_cells = [demo_enc_cell], encoder_fc = (\<lambda>v. v),
     embed = (\<lambda>tok. [real tok + 1]), dec_cells = [demo_dec_cell],
     joint = demo_joint, hidden_size = 1, blank = NUL \<rparr>"

definition demo_xs :: "vec list list" where
  "demo_xs = [[[0], [0], [1], [0], [0]], [[0], [0], [1], [0], [0]], [[0], [0], [1], [0], [0]]]"

definition demo_logp :: real where
  "demo_logp = 1 - ln (exp 1 + 7)"

definition demo_xs_padded :: "vec list list" where
  "demo_xs_padded = [[[0], [0], [1], [0], [0]], [[0], [0], [1], [1], [1]], [[0], [0], [1], [0], [0]]]"

definition demo_st0 :: dstate where
  "demo_st0 = \<lparr> h_pre = [[[0]], [[0]]], h = [[[0], [0]]], c = [[[3], [3]]], y_seq = [], log_p = [] \<rparr>"

definition demo_st1 :: dstate where
  "demo_st1 = \<lparr> h_pre = [[[0]], [[0]]], h = [[[0], [0]]], c = [[[3], [7]]],
                y_seq = [[0, 3]], log_p = [[demo_logp, demo_logp]] \<rparr>"

definition pass_cell :: cell where
  "pass_cell x s = (x, snd s)"

definition double_proj :: "vec list list \<Rightarrow> vec list list" where
  "double_proj xs = map (map (map (\<lambda>v. 2 * v))) xs"

definition demo_stack :: LayerNormRNN where
  "demo_stack = \<lparr> rnns = [pass_cell, pass_cell], projs = [double_proj, double_proj],
                  rnn_hidden_size = 1 \<rparr>"

section \<open>Properties of the combiner\<close>

lemma log_aplusb_le: "a \<le> b \<Longrightarrow> log_aplusb a b = ln (exp a + exp b)"
proof -
  assume ab: "a \<le> b"
  have pos: "0 < 1 + exp (a - b)"
    by (simp add: add_pos_pos)
  have "exp a + exp b = exp b * (1 + exp (a - b))"
    by (simp add: algebra_simps exp_diff)
  then have "ln (exp a + exp b) = b + ln (1 + exp (a - b))"
    using pos by (simp add: ln_mult)
  with ab show ?thesis
    by (simp add: log_aplusb_def log1p_def max_def)
qed

lemma log_aplusb_commute: "log_aplusb a b = log_aplusb b a"
  by (simp add: log_aplusb_def max.commute abs_minus_commute)

text \<open>
  Claim C9. For all real \<open>a\<close> and \<open>b\<close>, \<open>log_aplusb a b\<close> is \<open>ln (exp a + exp b)\<close>;
  so merging a correction \<open>q\<close> into a hypothesis log-probability \<open>p\<close> never lowers it.
\<close>

theorem log_aplusb_is_log_sum_exp:
  "log_aplusb a b = ln (exp a + exp b) \<and> p \<le> log_aplusb p q"
proof
  show "log_aplusb a b = ln (exp a + exp b)"
  proof (cases "a \<le> b")
    case True
    then show ?thesis by (rule log_aplusb_le)
  next
    case False
    then have "b \<le> a" by simp
    then have "log_aplusb b a = ln (exp b + exp a)" by (rule log_aplusb_le)
    then show ?thesis by (simp add: log_aplusb_commute add.commute)
  qed
next
  have "0 \<le> ln (1 + exp (- \<bar>p - q\<bar>))"
    by (rule ln_ge_zero) simp
  moreover have "p \<le> max p q"
    by simp
  ultimately show "p \<le> log_aplusb p q"
    unfolding log_aplusb_def log1p_def by linarith
qed

section \<open>The batched decoder, element by element\<close>

lemma lstm_layer_elem:
  assumes "lstm_layer f xs (h0, c0) = (ys, (h1, c1))"
    and "length xs = B" and "length h0 = B" and "length c0 = B"
  shows "length ys = B \<and> length h1 = B \<and> length c1 = B \<and>
         (\<forall>b<B. lstm_seq f (xs ! b) (h0 ! b, c0 ! b) = (ys ! b, (h1 ! b, c1 ! b)))"
  using assms by (auto simp: lstm_layer_def Let_def)

lemma lstm_elem:
  assumes "lstm fs xs (hh, cc) = (ys, (hh', cc'))"
    and "length xs = B" and "\<forall>l\<in>set hh. length l = B" and "\<forall>l\<in>set cc. length l = B"
  shows "length ys = B \<and> (\<forall>l\<in>set hh'. length l = B) \<and> (\<forall>l\<in>set cc'. length l = B) \<and>
         length hh' = min (length fs) (min (length hh) (length cc)) \<and> length cc' = length hh' \<and>
         (\<forall>b<B. lstm_one fs (xs ! b) (col b hh, col b cc) = (ys ! b, (col b hh', col b cc')))"
  using assms
proof (induction fs xs "(hh, cc)" arbitrary: hh cc ys hh' cc' rule: lstm.induct)
  case (1 f fs xs h0 hh c0 cc)
  obtain y1 h1 c1 where L: "lstm_layer f xs (h0, c0) = (y1, (h1, c1))"
    by (metis prod_cases3)
  obtain zs hs cs where R: "lstm fs y1 (hh, cc) = (zs, (hs, cs))"
    by (metis prod_cases3)
  from "1.prems" have lens: "length h0 = B" "length c0 = B" by auto
  note E = lstm_layer_elem[OF L "1.prems"(2) lens]
  from "1.prems" have rest: "\<forall>l\<in>set hh. length l = B" "\<forall>l\<in>set cc. length l = B" by auto
  have IH: "length zs = B \<and> (\<forall>l\<in>set hs. length l = B) \<and> (\<forall>l\<in>set cs. length l = B) \<and>
         length hs = min (length fs) (min (length hh) (length cc)) \<and> length cs = length hs \<and>
         (\<forall>b<B. lstm_one fs (y1 ! b) (col b hh, col b cc) = (zs ! b, (col b hs, col b cs)))"
    using "1.hyps"[OF L[symmetric] refl refl R] E rest by simp
  from "1.prems"(1) L R have res: "ys = zs" "hh' = h1 # hs" "cc' = c1 # cs" by auto
  show ?case using IH E unfolding res by (auto simp: col_def)
qed (auto simp: col_def)

lemma mask_assign_nth:
  "length pred = B \<Longrightarrow> length old = B \<Longrightarrow> length new = B \<Longrightarrow> b < B \<Longrightarrow>
   mask_assign blk pred old new ! b = (if pred ! b \<noteq> blk then new ! b else old ! b)"
  by (simp add: mask_assign_def)

lemma mask_assign_length:
  "length pred = B \<Longrightarrow> length old = B \<Longrightarrow> length new = B \<Longrightarrow>
   length (mask_assign blk pred old new) = B"
  by (simp add: mask_assign_def)

lemma col_mask_layers:
  assumes "length pred = B" "length olds = length news"
    "\<forall>l\<in>set olds. length l = B" "\<forall>l\<in>set news. length l = B" "b < B"
  shows "col b (map (\<lambda>(old, new). mask_assign blk pred old new) (zip olds news)) =
         (if pred ! b \<noteq> blk then col b news else col b olds)"
  using assms(2,3,4)
proof (induction olds news rule: list_induct2)
  case Nil
  then show ?case by (simp add: col_def)
next
  case (Cons x xs y ys)
  then show ?case
    using mask_assign_nth[OF assms(1) _ _ assms(5), of x y blk]
    by (simp add: col_def)
qed

lemma mask_layers_wf:
  assumes "length pred = B" "length olds = length news"
    "\<forall>l\<in>set olds. length l = B" "\<forall>l\<in>set news. length l = B"
  shows "\<forall>l\<in>set (map (\<lambda>(old, new). mask_assign blk pred old new) (zip olds news)). length l = B"
  using assms(2,3,4)
proof (induction olds news rule: list_induct2)
  case Nil
  then show ?case by simp
next
  case (Cons x xs y ys)
  then show ?case
    using mask_assign_length[OF assms(1), of x y blk] by simp
qed

lemma max_val_Max: "v \<noteq> [] \<Longrightarrow> max_val v = Max (set v)"
  by (cases v) (simp_all add: max_val_def Max.set_eq_fold [symmetric])

lemma max_val_in: "v \<noteq> [] \<Longrightarrow> max_val v \<in> set v"
  by (simp add: max_val_Max)

lemma max_val_ge: "x \<in> set v \<Longrightarrow> x \<le> max_val v"
  by (cases "v = []") (simp_all add: max_val_Max)

lemma log_softmax_le_0:
  assumes "y \<in> set (log_softmax v)" shows "y \<le> 0"
proof -
  from assms obtain x where x: "x \<in> set v" "y = x - ln (sum_list (map exp v))"
    by (auto simp: log_softmax_def)
  have le: "exp x \<le> sum_list (map exp v)"
    using x(1) by (intro member_le_sum_list) auto
  have pos: "0 < exp x" by simp
  have "ln (exp x) \<le> ln (sum_list (map exp v))"
    using le pos by (intro ln_mono) linarith+
  then show ?thesis using x(2) by simp
qed

lemma max_val_log_softmax_le_0: "log_softmax v \<noteq> [] \<Longrightarrow> max_val (log_softmax v) \<le> 0"
  using max_val_in log_softmax_le_0 by blast

lemma greedy_step_elem:
  assumes step: "greedy_step M enc_i st = Inr st'"
    and wf: "wf_state M B st" and len: "length enc_i = B"
  shows "wf_state M B st' \<and>
     (\<exists>pred prob. y_seq st' = y_seq st @ [pred] \<and> log_p st' = log_p st @ [prob] \<and>
        length pred = B \<and> length prob = B \<and> (\<forall>x\<in>set prob. x \<le> 0) \<and>
        (\<forall>b<B. step_one M (enc_i ! b) (proj b st) = ((prob ! b, pred ! b), proj b st')))"
proof -
  define probs where
    "probs = map log_softmax (map (joint M) (map2 vadd enc_i (map (\<lambda>r. r ! 0) (h_pre st))))"
  define prob where "prob = map max_val probs"
  define pred where "pred = map argmax probs"
  define embed_pred where "embed_pred = map (\<lambda>p. [embed M p]) pred"
  obtain new_h_pre new_h new_c where
    L: "lstm (dec_cells M) embed_pred (h st, c st) = (new_h_pre, (new_h, new_c))"
    by (metis prod_cases3)
  from wf have hp: "length (h_pre st) = B"
    and hl: "length (h st) = length (dec_cells M)" and cl: "length (c st) = length (dec_cells M)"
    and hB: "\<forall>l\<in>set (h st). length l = B" and cB: "\<forall>l\<in>set (c st). length l = B"
    and yB: "\<forall>r\<in>set (y_seq st). length r = B" and pB: "\<forall>r\<in>set (log_p st). length r = B"
    by (simp_all add: wf_state_def)
  have lprobs: "length probs = B"
    using hp len by (simp add: probs_def)
  have lpred: "length pred = B" and lprob: "length prob = B" and lemb: "length embed_pred = B"
    using lprobs by (simp_all add: pred_def prob_def embed_pred_def)
  have ne: "[] \<notin> set probs"
    using step unfolding greedy_step_def probs_def Let_def by (auto split: if_splits)
  have st': "st' = \<lparr> h_pre = mask_assign (blank M) pred (h_pre st) new_h_pre,
                    h = map (\<lambda>(old, new). mask_assign (blank M) pred old new) (zip (h st) new_h),
                    c = map (\<lambda>(old, new). mask_assign (blank M) pred old new) (zip (c st) new_c),
                    y_seq = y_seq st @ [pred],
                    log_p = log_p st @ [prob] \<rparr>"
    using step ne L
    unfolding greedy_step_def Let_def probs_def prob_def pred_def embed_pred_def
    by (auto split: if_splits)
  note E = lstm_elem[OF L lemb hB cB]
  from E hl cl have nl: "length new_h = length (h st)" "length new_c = length (c st)"
    by simp_all
  from E have nhp: "length new_h_pre = B" and nhB: "\<forall>l\<in>set new_h. length l = B"
    and ncB: "\<forall>l\<in>set new_c. length l = B" by simp_all
  have wf': "wf_state M B st'"
    unfolding wf_state_def st'
    using mask_assign_length[OF lpred hp nhp] mask_layers_wf[OF lpred nl(1)[symmetric] hB nhB]
      mask_layers_wf[OF lpred nl(2)[symmetric] cB ncB] nl hl cl yB pB lpred lprob
    by simp
  have neg: "\<forall>x\<in>set prob. x \<le> 0"
  proof
    fix x assume "x \<in> set prob"
    then obtain v where v: "v \<in> set probs" "x = max_val v" by (auto simp: prob_def)
    with ne have "v \<noteq> []" by auto
    then have "max_val v \<in> set v" by (rule max_val_in)
    moreover from v(1) obtain w where "v = log_softmax w" by (auto simp: probs_def)
    ultimately show "x \<le> 0" using log_softmax_le_0 v(2) by blast
  qed
  have elem: "step_one M (enc_i ! b) (proj b st) = ((prob ! b, pred ! b), proj b st')"
    if b: "b < B" for b
  proof -
    have pb: "probs ! b = log_softmax (joint M (vadd (enc_i ! b) (h_pre st ! b ! 0)))"
      using b hp len by (simp add: probs_def)
    have predb: "pred ! b = argmax (probs ! b)" and probb: "prob ! b = max_val (probs ! b)"
      using b lprobs by (simp_all add: pred_def prob_def)
    have embb: "embed_pred ! b = [embed M (pred ! b)]"
      using b lpred by (simp add: embed_pred_def)
    from E b have one: "lstm_one (dec_cells M) [embed M (pred ! b)] (col b (h st), col b (c st))
        = (new_h_pre ! b, (col b new_h, col b new_c))"
      using embb by auto
    have p1: "h_pre st' ! b = (if pred ! b \<noteq> blank M then new_h_pre ! b else h_pre st ! b)"
      unfolding st' using mask_assign_nth[OF lpred hp nhp b] by simp
    have p2: "col b (h st') = (if pred ! b \<noteq> blank M then col b new_h else col b (h st))"
      unfolding st' using col_mask_layers[OF lpred nl(1)[symmetric] hB nhB b] by simp
    have p3: "col b (c st') = (if pred ! b \<noteq> blank M then col b new_c else col b (c st))"
      unfolding st' using col_mask_layers[OF lpred nl(2)[symmetric] cB ncB b] by simp
    show ?thesis
      unfolding step_one_def proj_def
      by (simp add: Let_def pb[symmetric] predb[symmetric] probb[symmetric] one p1 p2 p3)
  qed
  show ?thesis
    using wf' neg elem lpred lprob st' by auto
qed

lemma greedy_loop_elem:
  assumes "greedy_loop M h_enc is st = Inr st'" "wf_state M B st" "length h_enc = B"
  shows "wf_state M B st' \<and> (nonpos st \<longrightarrow> nonpos st') \<and>
     length (y_seq st') = length (y_seq st) + length is \<and>
     length (log_p st') = length (log_p st) + length is \<and>
     (\<forall>b<B. \<exists>outs. run_one M (map (\<lambda>i. h_enc ! b ! i) is) (proj b st) = (outs, proj b st') \<and>
        col b (y_seq st') = col b (y_seq st) @ map snd outs \<and>
        col b (log_p st') = col b (log_p st) @ map fst outs)"
  using assms
proof (induction "is" arbitrary: st)
  case Nil
  then show ?case by simp
next
  case (Cons i "is")
  from Cons.prems(1) obtain st1 where
    s1: "greedy_step M (map (\<lambda>r. r ! i) h_enc) st = Inr st1"
    and l1: "greedy_loop M h_enc is st1 = Inr st'"
    by (auto split: sum.splits)
  have len: "length (map (\<lambda>r. r ! i) h_enc) = B" using Cons.prems(3) by simp
  from greedy_step_elem[OF s1 Cons.prems(2) len] obtain pred prob where
    wf1: "wf_state M B st1" and y1: "y_seq st1 = y_seq st @ [pred]"
    and p1: "log_p st1 = log_p st @ [prob]" and neg: "\<forall>x\<in>set prob. x \<le> 0"
    and el: "\<forall>b<B. step_one M (map (\<lambda>r. r ! i) h_enc ! b) (proj b st)
                 = ((prob ! b, pred ! b), proj b st1)"
    by auto
  note IH = Cons.IH[OF l1 wf1 Cons.prems(3)]
  have np: "nonpos st \<longrightarrow> nonpos st'"
    using IH neg p1 by (auto simp: nonpos_def)
  have elem: "\<exists>outs. run_one M (map (\<lambda>i. h_enc ! b ! i) (i # is)) (proj b st) = (outs, proj b st') \<and>
        col b (y_seq st') = col b (y_seq st) @ map snd outs \<and>
        col b (log_p st') = col b (log_p st) @ map fst outs" if b: "b < B" for b
  proof -
    from IH b obtain outs where
      r: "run_one M (map (\<lambda>i. h_enc ! b ! i) is) (proj b st1) = (outs, proj b st')"
      and cy: "col b (y_seq st') = col b (y_seq st1) @ map snd outs"
      and cp: "col b (log_p st') = col b (log_p st1) @ map fst outs"
      by blast
    from el b Cons.prems(3) have
      s: "step_one M (h_enc ! b ! i) (proj b st) = ((prob ! b, pred ! b), proj b st1)"
      by simp
    have "run_one M (map (\<lambda>i. h_enc ! b ! i) (i # is)) (proj b st)
            = ((prob ! b, pred ! b) # outs, proj b st')"
      by (simp add: s r)
    moreover have "col b (y_seq st') = col b (y_seq st) @ map snd ((prob ! b, pred ! b) # outs)"
      using cy y1 by (simp add: col_def)
    moreover have "col b (log_p st') = col b (log_p st) @ map fst ((prob ! b, pred ! b) # outs)"
      using cp p1 by (simp add: col_def)
    ultimately show ?thesis by blast
  qed
  show ?case
    using IH np elem y1 p1 by simp
qed

lemma col_replicate: "b < B \<Longrightarrow> col b (replicate L (replicate B z)) = replicate L z"
  by (simp add: col_def map_replicate_const)

lemma decoder_init_elem:
  "wf_state M B (decoder_init M B) \<and> nonpos (decoder_init M B) \<and>
   y_seq (decoder_init M B) = [] \<and> log_p (decoder_init M B) = [] \<and>
   (\<forall>b<B. proj b (decoder_init M B) = init_one M)"
proof -
  define L where "L = length (dec_cells M)"
  define Z where "Z = replicate L (replicate B (replicate (hidden_size M) (0::real)))"
  obtain h_pre0 h0 c0 where
    R: "lstm (dec_cells M) (map (map (embed M)) (replicate B [BOS])) (Z, Z) = (h_pre0, (h0, c0))"
    by (metis prod_cases3)
  have st: "decoder_init M B = \<lparr> h_pre = h_pre0, h = h0, c = c0, y_seq = [], log_p = [] \<rparr>"
    using R by (simp add: decoder_init_def zeros_def Z_def L_def)
  have ZB: "\<forall>l\<in>set Z. length l = B" by (simp add: Z_def)
  have lx: "length (map (map (embed M)) (replicate B [BOS])) = B" by simp
  note E = lstm_elem[OF R lx ZB ZB]
  have wf: "wf_state M B (decoder_init M B)"
    using E by (simp add: st wf_state_def Z_def L_def)
  have pr: "proj b (decoder_init M B) = init_one M" if "b < B" for b
  proof -
    have cz: "col b Z = replicate L (replicate (hidden_size M) 0)"
      using that by (simp add: Z_def col_replicate)
    from E that have "lstm_one (dec_cells M) [embed M BOS] (col b Z, col b Z)
        = (h_pre0 ! b, (col b h0, col b c0))"
      by simp
    then show ?thesis
      by (simp add: init_one_def zeros_one_def cz L_def proj_def st)
  qed
  show ?thesis using wf pr by (simp add: st nonpos_def)
qed

lemma lstm_seq_length: "lstm_seq f xs s = (ys, s') \<Longrightarrow> length ys = length xs"
proof (induction xs arbitrary: s ys s')
  case Nil
  then show ?case by simp
next
  case (Cons x xs)
  obtain ys1 s1 where R: "lstm_seq f xs (f x s) = (ys1, s1)"
    by (metis surj_pair)
  from Cons.IH[OF R] have "length ys1 = length xs" .
  with Cons.prems R show ?case by (auto simp: Let_def)
qed

lemma lstm_one_length: "lstm_one fs x hc = (y, hc') \<Longrightarrow> length y = length x"
proof (induction fs x hc arbitrary: y hc' rule: lstm_one.induct)
  case (1 f fs x h0 hs c0 cs)
  obtain y1 h1 c1 where L: "lstm_seq f x (h0, c0) = (y1, (h1, c1))"
    by (metis prod_cases3)
  obtain z hs' cs' where R: "lstm_one fs y1 (hs, cs) = (z, (hs', cs'))"
    by (metis prod_cases3)
  have "length z = length y1"
    using "1.IH"[OF L[symmetric] refl refl R] .
  moreover have "length y1 = length x" using L by (rule lstm_seq_length)
  moreover have "y = z" using "1.prems" L R by simp
  ultimately show ?case by simp
qed simp_all

lemma encoder_elem:
  "length (encoder M xs) = length xs \<and>
   (\<forall>b<length xs. encoder M xs ! b = encode_one M (xs ! b))"
proof -
  define L where "L = length (enc_cells M)"
  define Z where "Z = replicate L (replicate (length xs) (replicate (hidden_size M) (0::real)))"
  obtain ys hs cs where R: "lstm (enc_cells M) xs (Z, Z) = (ys, (hs, cs))"
    by (metis prod_cases3)
  have ZB: "\<forall>l\<in>set Z. length l = length xs" by (simp add: Z_def)
  note E = lstm_elem[OF R refl ZB ZB]
  have enc: "encoder M xs = map (map (encoder_fc M)) ys"
    using R by (simp add: encoder_def zeros_def Z_def L_def)
  have "encoder M xs ! b = encode_one M (xs ! b)" if "b < length xs" for b
  proof -
    have cz: "col b Z = replicate L (replicate (hidden_size M) 0)"
      using that by (simp add: Z_def col_replicate)
    from E that have "lstm_one (enc_cells M) (xs ! b) (col b Z, col b Z)
        = (ys ! b, (col b hs, col b cs))" by simp
    then show ?thesis using that E
      by (simp add: enc encode_one_def zeros_one_def cz L_def)
  qed
  then show ?thesis using E by (simp add: enc)
qed

lemma encode_one_length: "length (encode_one M x) = length x"
  using lstm_one_length[of "enc_cells M" x] by (simp add: encode_one_def prod_eq_iff)

lemma shape1_encoder: "shape1 (encoder M xs) = shape1 xs"
proof (cases xs)
  case Nil
  then show ?thesis using encoder_elem[of M xs] by (simp add: shape1_def)
next
  case (Cons r rs)
  then have "encoder M xs ! 0 = encode_one M r" "length (encoder M xs) = length xs"
    using encoder_elem[of M xs] by auto
  then show ?thesis using Cons
    by (cases "encoder M xs") (auto simp: shape1_def encode_one_length)
qed

lemma stack1_col:
  assumes "rows \<noteq> []" "\<forall>r\<in>set rows. length r = B"
  shows "length (stack1 rows) = B" and "b < B \<Longrightarrow> stack1 rows ! b = col b rows"
proof -
  have "shape1 rows = B" using assms by (cases rows) (auto simp: shape1_def)
  then show "length (stack1 rows) = B" and "b < B \<Longrightarrow> stack1 rows ! b = col b rows"
    by (simp_all add: stack1_def col_def)
qed

lemma run_one_length: "run_one M es s = (outs, s') \<Longrightarrow> length outs = length es"
proof (induction es arbitrary: s outs s')
  case Nil
  then show ?case by simp
next
  case (Cons e es)
  obtain out s1 where S: "step_one M e s = (out, s1)" by (metis surj_pair)
  obtain outs1 s2 where R: "run_one M es s1 = (outs1, s2)" by (metis surj_pair)
  from Cons.IH[OF R] Cons.prems S R show ?case by auto
qed

lemma trace_one_length: "length (trace_one M x) = length x"
  using run_one_length[of M "encode_one M x" "init_one M"]
  by (simp add: trace_one_def prod_eq_iff encode_one_length)

lemma greedy_run_loop:
  assumes "greedy_run M xs = Inr (rec, lp)"
  obtains st' where
    "greedy_loop M (encoder M xs) [0..<shape1 xs] (decoder_init M (length xs)) = Inr st'"
    "y_seq st' \<noteq> []" "rec = stack1 (y_seq st')" "lp = map sum_list (stack1 (log_p st'))"
  using assms unfolding greedy_run_def Let_def shape1_encoder
  by (auto split: sum.splits if_splits)

lemma greedy_run_shape:
  assumes run: "greedy_run M xs = Inr (rec, lp)"
  shows "length rec = length xs \<and> length lp = length xs \<and> 0 < shape1 xs \<and>
         (\<forall>x\<in>set lp. x \<le> 0)"
proof -
  define B where "B = length xs"
  from run obtain st' where
    loop: "greedy_loop M (encoder M xs) [0..<shape1 xs] (decoder_init M B) = Inr st'"
    and ne: "y_seq st' \<noteq> []" and rec: "rec = stack1 (y_seq st')"
    and lp: "lp = map sum_list (stack1 (log_p st'))"
    unfolding B_def by (rule greedy_run_loop)
  have lenc: "length (encoder M xs) = B" using encoder_elem[of M xs] by (simp add: B_def)
  note I = decoder_init_elem[of M B]
  from I have wf0: "wf_state M B (decoder_init M B)" by simp
  note E = greedy_loop_elem[OF loop wf0 lenc]
  from E I have T: "length (y_seq st') = shape1 xs" "length (log_p st') = shape1 xs"
    by simp_all
  with ne have Tpos: "0 < shape1 xs" by (cases "y_seq st'") auto
  then have pne: "log_p st' \<noteq> []" using T by auto
  from E have yB: "\<forall>r\<in>set (y_seq st'). length r = B" and pB: "\<forall>r\<in>set (log_p st'). length r = B"
    by (simp_all add: wf_state_def)
  from E I have np: "nonpos st'" by simp
  have l1: "length rec = B" unfolding rec using stack1_col(1)[OF ne yB] .
  have l2: "length lp = B" unfolding lp using stack1_col(1)[OF pne pB] by simp
  have neg: "x \<le> 0" if "x \<in> set lp" for x
  proof -
    from that l2 obtain b where b: "b < B" "x = lp ! b"
      by (metis in_set_conv_nth)
    have "lp ! b = sum_list (col b (log_p st'))"
      unfolding lp using stack1_col[OF pne pB] b(1) by simp
    moreover have "\<forall>y\<in>set (col b (log_p st')). y \<le> 0"
      using np pB b(1) by (auto simp: nonpos_def col_def)
    ultimately show ?thesis using b(2) by (simp add: sum_list_nonpos)
  qed
  show ?thesis using l1 l2 Tpos neg by (simp add: B_def)
qed

lemma greedy_run_elem:
  assumes run: "greedy_run M xs = Inr (rec, lp)" and rect: "rect xs" and b: "b < length xs"
  shows "rec ! b = map snd (trace_one M (xs ! b)) \<and>
         lp ! b = sum_list (map fst (trace_one M (xs ! b)))"
proof -
  define B where "B = length xs"
  from run obtain st' where
    loop: "greedy_loop M (encoder M xs) [0..<shape1 xs] (decoder_init M B) = Inr st'"
    and ne: "y_seq st' \<noteq> []" and rec: "rec = stack1 (y_seq st')"
    and lp: "lp = map sum_list (stack1 (log_p st'))"
    unfolding B_def by (rule greedy_run_loop)
  have bB: "b < B" using b by (simp add: B_def)
  have lenc: "length (encoder M xs) = B" using encoder_elem[of M xs] by (simp add: B_def)
  note I = decoder_init_elem[of M B]
  from I have wf0: "wf_state M B (decoder_init M B)" by simp
  note E = greedy_loop_elem[OF loop wf0 lenc]
  from E I have T: "length (log_p st') = shape1 xs" by simp
  from run have "0 < shape1 xs" using greedy_run_shape by blast
  then have pne: "log_p st' \<noteq> []" using T by auto
  from E have yB: "\<forall>r\<in>set (y_seq st'). length r = B" and pB: "\<forall>r\<in>set (log_p st'). length r = B"
    by (simp_all add: wf_state_def)
  have eb: "encoder M xs ! b = encode_one M (xs ! b)"
    using encoder_elem[of M xs] b by simp
  have "length (xs ! b) = shape1 xs" using rect b by (simp add: rect_def)
  then have "length (encode_one M (xs ! b)) = shape1 xs" by (simp add: encode_one_length)
  then have frames: "map (\<lambda>i. encoder M xs ! b ! i) [0..<shape1 xs] = encode_one M (xs ! b)"
    unfolding eb by (metis map_nth)
  from E bB I obtain outs where
    r: "run_one M (map (\<lambda>i. encoder M xs ! b ! i) [0..<shape1 xs]) (init_one M)
          = (outs, proj b st')"
    and cy: "col b (y_seq st') = map snd outs" and cp: "col b (log_p st') = map fst outs"
    by (auto simp: col_def)
  from r have tr: "trace_one M (xs ! b) = outs"
    by (simp add: trace_one_def frames)
  show ?thesis
    unfolding rec lp tr using stack1_col[OF ne yB] stack1_col[OF pne pB] bB cy cp by simp
qed

lemma lstm_seq_take: "fst (lstm_seq f (take n xs) s) = take n (fst (lstm_seq f xs s))"
proof (induction xs arbitrary: n s)
  case Nil
  then show ?case by simp
next
  case (Cons x xs)
  show ?case
  proof (cases n)
    case 0
    then show ?thesis by simp
  next
    case (Suc m)
    then show ?thesis
      using Cons.IH[of m "f x s"] by (simp add: Let_def case_prod_beta)
  qed
qed

lemma lstm_one_take: "fst (lstm_one fs (take n x) hc) = take n (fst (lstm_one fs x hc))"
proof (induction fs x hc arbitrary: n rule: lstm_one.induct)
  case (1 f fs x h0 hs c0 cs)
  obtain y h1 c1 where L: "lstm_seq f x (h0, c0) = (y, (h1, c1))"
    by (metis prod_cases3)
  obtain y' h1' c1' where L': "lstm_seq f (take n x) (h0, c0) = (y', (h1', c1'))"
    by (metis prod_cases3)
  have yy: "y' = take n y"
    using lstm_seq_take[of f n x "(h0, c0)"] L L' by simp
  have "fst (lstm_one fs (take n y) (hs, cs)) = take n (fst (lstm_one fs y (hs, cs)))"
    using "1.IH"[OF L[symmetric] refl refl] .
  then show ?case
    using L L' yy by (simp add: Let_def case_prod_beta)
qed simp_all

lemma encode_one_take: "encode_one M (take n x) = take n (encode_one M x)"
  by (simp add: encode_one_def lstm_one_take take_map)

lemma run_one_take: "fst (run_one M (take n es) s) = take n (fst (run_one M es s))"
proof (induction es arbitrary: n s)
  case Nil
  then show ?case by simp
next
  case (Cons e es)
  show ?case
  proof (cases n)
    case 0
    then show ?thesis by simp
  next
    case (Suc m)
    obtain out s1 where S: "step_one M e s = (out, s1)" by (metis surj_pair)
    show ?thesis
      using Cons.IH[of m s1] Suc S by (simp add: Let_def case_prod_beta)
  qed
qed

lemma trace_one_take: "trace_one M (take n x) = take n (trace_one M x)"
  by (simp add: trace_one_def encode_one_take run_one_take)

lemma log_softmax_Nil_iff: "log_softmax v = [] \<longleftrightarrow> v = []"
  by (simp add: log_softmax_def)

lemma greedy_step_total:
  assumes "\<forall>v. joint M v \<noteq> []"
  shows "\<exists>st'. greedy_step M enc_i st = Inr st'"
proof -
  have "[] \<notin> set (map log_softmax (map (joint M) (map2 vadd enc_i (map (\<lambda>r. r ! 0) (h_pre st)))))"
    using assms by (auto simp: log_softmax_def)
  then show ?thesis
    unfolding greedy_step_def Let_def by (simp split: prod.splits)
qed

lemma greedy_loop_total:
  assumes "\<forall>v. joint M v \<noteq> []"
  shows "\<exists>st'. greedy_loop M h_enc is st = Inr st' \<and>
               length (y_seq st') = length (y_seq st) + length is"
proof (induction "is" arbitrary: st)
  case Nil
  then show ?case by simp
next
  case (Cons i "is")
  obtain st1 where s1: "greedy_step M (map (\<lambda>r. r ! i) h_enc) st = Inr st1"
    using greedy_step_total[OF assms] by blast
  then have "length (y_seq st1) = Suc (length (y_seq st))"
    unfolding greedy_step_def Let_def by (auto split: if_splits prod.splits)
  with Cons.IH[of st1] s1 show ?case by auto
qed

lemma greedy_run_total:
  assumes "\<forall>v. joint M v \<noteq> []" and "0 < shape1 xs"
  shows "\<exists>rec lp. greedy_run M xs = Inr (rec, lp)"
proof -
  obtain st' where
    loop: "greedy_loop M (encoder M xs) [0..<shape1 xs] (decoder_init M (length xs)) = Inr st'"
    and len: "length (y_seq st') = length (y_seq (decoder_init M (length xs))) + length [0..<shape1 xs]"
    using greedy_loop_total[OF assms(1)] by blast
  from len assms(2) have "y_seq st' \<noteq> []" by auto
  with loop show ?thesis
    unfolding greedy_run_def Let_def shape1_encoder by simp
qed

lemma greedy_decode_run:
  "greedy_decode M xs xlen = Inr (ys, sc) \<longleftrightarrow>
   (\<exists>rec lp. greedy_run M xs = Inr (rec, lp) \<and>
      ys = map (\<lambda>(seq, seq_len). filter (\<lambda>tok. tok \<noteq> blank M) (slice_to seq seq_len)) (zip rec xlen) \<and>
      sc = map uminus lp)"
  unfolding greedy_decode_def by (auto split: sum.splits)

section \<open>Evaluating the small transducer\<close>

lemma max_val_log_softmax:
  "v \<noteq> [] \<Longrightarrow> max_val (log_softmax v) = max_val v - ln (sum_list (map exp v))"
proof -
  assume ne: "v \<noteq> []"
  have mono: "mono (\<lambda>x. x - ln (sum_list (map exp v)))"
    by (simp add: mono_def)
  have "Max (set (log_softmax v)) = Max ((\<lambda>x. x - ln (sum_list (map exp v))) ` set v)"
    by (simp add: log_softmax_def)
  also have "\<dots> = Max (set v) - ln (sum_list (map exp v))"
    using ne by (simp add: mono_Max_commute[OF mono])
  finally show ?thesis
    using ne by (simp add: max_val_Max log_softmax_def)
qed

lemma first_index_shift:
  "first_index (m - k) (map (\<lambda>x. x - k) v) = first_index m (v :: real list)"
  by (induction v) simp_all

lemma argmax_log_softmax: "v \<noteq> [] \<Longrightarrow> argmax (log_softmax v) = argmax v"
  unfolding argmax_def
  by (simp add: max_val_log_softmax) (simp add: log_softmax_def first_index_shift)

lemma demo_joint_probs:
  "max_val (log_softmax (demo_joint v)) = demo_logp"
  "argmax (log_softmax (demo_joint v)) = (if v = [1] then 3 else 0)"
  "log_softmax (demo_joint v) \<noteq> []"
proof -
  have ne: "demo_joint v \<noteq> []" by (simp add: demo_joint_def)
  show "max_val (log_softmax (demo_joint v)) = demo_logp"
    unfolding max_val_log_softmax[OF ne]
    by (simp add: demo_joint_def demo_logp_def max_val_def add.commute)
  show "argmax (log_softmax (demo_joint v)) = (if v = [1] then 3 else 0)"
    unfolding argmax_log_softmax[OF ne]
    by (simp add: demo_joint_def argmax_def max_val_def)
  show "log_softmax (demo_joint v) \<noteq> []"
    using ne by (simp add: log_softmax_Nil_iff)
qed

lemma demo_encoder: "encoder demo_model demo_xs = demo_xs"
  by (simp add: encoder_def demo_model_def demo_xs_def zeros_def lstm_layer_def
      demo_enc_cell_def Let_def)

lemma demo_init: "decoder_init demo_model 3 =
  \<lparr> h_pre = [[[0]], [[0]], [[0]]], h = [[[0], [0], [0]]], c = [[[3], [3], [3]]], y_seq = [], log_p = [] \<rparr>"
  by (simp add: decoder_init_def demo_model_def zeros_def lstm_layer_def
      demo_dec_cell_def Let_def BOS_def numeral_3_eq_3)

lemma demo_model_simps:
  "enc_cells demo_model = [demo_enc_cell]" "encoder_fc demo_model = (\<lambda>v. v)"
  "embed demo_model = (\<lambda>tok. [real tok + 1])" "dec_cells demo_model = [demo_dec_cell]"
  "joint demo_model = demo_joint" "hidden_size demo_model = 1" "blank demo_model = 0"
  by (simp_all add: demo_model_def NUL_def)

lemma upt_5: "[0..<5] = [0, 1, 2, 3, 4]"
  by (simp add: upt_rec)

lemma demo_shape: "shape1 demo_xs = 5" "length demo_xs = 3"
  by (simp_all add: shape1_def demo_xs_def)

lemma demo_loop:
  "greedy_loop demo_model demo_xs [0..<5] (decoder_init demo_model 3) =
   Inr \<lparr> h_pre = [[[0]], [[0]], [[0]]], h = [[[0], [0], [0]]], c = [[[7], [7], [7]]],
         y_seq = [[0, 0, 0], [0, 0, 0], [3, 3, 3], [0, 0, 0], [0, 0, 0]],
         log_p = replicate 5 (replicate 3 demo_logp) \<rparr>"
  unfolding demo_init upt_5
  by (simp add: greedy_step_def demo_model_simps demo_joint_probs demo_xs_def vadd_def
      demo_joint_probs(3)[THEN not_sym]
      lstm_layer_def demo_dec_cell_def mask_assign_def Let_def numeral_eq_Suc)

lemma demo_run:
  "greedy_run demo_model demo_xs =
   Inr ([[0, 0, 3, 0, 0], [0, 0, 3, 0, 0], [0, 0, 3, 0, 0]],
        [5 * demo_logp, 5 * demo_logp, 5 * demo_logp])"
  unfolding greedy_run_def demo_encoder Let_def demo_shape demo_loop
  by (simp add: stack1_def shape1_def numeral_eq_Suc upt_rec)

lemma demo_decode:
  "greedy_decode demo_model demo_xs [5, 3, 5] =
   Inr ([[3], [3], [3]], [- (5 * demo_logp), - (5 * demo_logp), - (5 * demo_logp)])"
  unfolding greedy_decode_def demo_run
  by (simp add: slice_to_def demo_model_simps)

section \<open>What greedy decoding returns\<close>

lemma demo_logp_neg: "demo_logp < 0"
proof -
  have "exp 1 < exp 1 + (7::real)" by simp
  then have "ln (exp 1) < ln (exp 1 + (7::real))"
    by (subst ln_less_cancel_iff) (simp_all add: add_pos_pos)
  then show ?thesis by (simp add: demo_logp_def)
qed

lemma demo_rect: "rect demo_xs"
  by (simp add: rect_def shape1_def demo_xs_def)

lemma demo_trace:
  "trace_one demo_model [[0], [0], [1], [0], [0]] =
   [(demo_logp, 0), (demo_logp, 0), (demo_logp, 3), (demo_logp, 0), (demo_logp, 0)]"
  by (simp add: trace_one_def encode_one_def init_one_def zeros_one_def step_one_def
      demo_model_simps demo_joint_probs demo_enc_cell_def demo_dec_cell_def vadd_def Let_def BOS_def)

theorem score_first_L_steps_counterexample:
  "greedy_decode demo_model demo_xs [5, 3, 5] =
     Inr ([[3], [3], [3]], [- (5 * demo_logp), - (5 * demo_logp), - (5 * demo_logp)]) \<and>
   map fst (trace_one demo_model (demo_xs ! 1)) =
     [demo_logp, demo_logp, demo_logp, demo_logp, demo_logp] \<and>
   - (5 * demo_logp) \<noteq> - sum_list (take 3 [demo_logp, demo_logp, demo_logp, demo_logp, demo_logp])"
proof -
  have "demo_xs ! 1 = [[0], [0], [1], [0], [0]]"
    by (simp add: demo_xs_def)
  then show ?thesis
    using demo_logp_neg by (simp add: demo_decode demo_trace)
qed

text \<open>
  Claim C1, as amended; the claim as stated fails (three identical 5-frame sequences with
  valid lengths 5, 3, 5 get three equal scores, each the negated sum over all five steps). For every element \<open>b\<close> of a rectangular batch, the
  returned score is the negated sum of the chosen per-step log-probabilities of all \<open>T\<close>
  encoder steps of that element, whatever the valid lengths; so elements with identical
  feature sequences get equal scores.
\<close>

theorem score_sums_all_steps:
  assumes "greedy_decode M xs xlen = Inr (ys, sc)" and "rect xs" and "b < length xs"
  shows "sc ! b = - sum_list (map fst (trace_one M (xs ! b))) \<and>
         length (trace_one M (xs ! b)) = shape1 xs \<and>
         (\<forall>b'<length xs. xs ! b' = xs ! b \<longrightarrow> sc ! b' = sc ! b)"
proof -
  from assms(1) obtain rec lp where run: "greedy_run M xs = Inr (rec, lp)"
    and sc: "sc = map uminus lp"
    by (auto simp: greedy_decode_run)
  have len: "length lp = length xs" using greedy_run_shape[OF run] by simp
  have val: "sc ! k = - sum_list (map fst (trace_one M (xs ! k)))" if "k < length xs" for k
    using greedy_run_elem[OF run assms(2) that] that len by (simp add: sc)
  have "length (xs ! b) = shape1 xs" using assms(2,3) by (simp add: rect_def)
  then show ?thesis using val assms(3) by (simp add: trace_one_length)
qed

theorem score_sums_all_steps_witness:
  "[- (5 * demo_logp), - (5 * demo_logp), - (5 * demo_logp)] ! 1 =
     - sum_list (map fst (trace_one demo_model (demo_xs ! 1))) \<and>
   length (trace_one demo_model (demo_xs ! 1)) = shape1 demo_xs"
  using score_sums_all_steps[OF demo_decode demo_rect, of 1] by (simp add: demo_shape)

text \<open>
  Claim C10. Every entry of the score vector returned by \<open>greedy_decode\<close> is nonnegative.
\<close>

theorem scores_nonnegative:
  assumes "greedy_decode M xs xlen = Inr (ys, sc)"
  shows "\<forall>s\<in>set sc. 0 \<le> s"
proof -
  from assms obtain rec lp where run: "greedy_run M xs = Inr (rec, lp)"
    and sc: "sc = map uminus lp"
    by (auto simp: greedy_decode_run)
  from greedy_run_shape[OF run] have "\<forall>x\<in>set lp. x \<le> 0" by simp
  then show ?thesis by (simp add: sc)
qed

theorem scores_nonnegative_witness:
  "greedy_decode demo_model demo_xs [5, 3, 5] =
     Inr ([[3], [3], [3]], [- (5 * demo_logp), - (5 * demo_logp), - (5 * demo_logp)]) \<and>
   0 \<le> - (5 * demo_logp)"
  using scores_nonnegative[OF demo_decode] demo_decode by simp

text \<open>
  Claim C3. No token sequence returned by \<open>greedy_decode\<close> contains the blank token (id 0
  for the default \<open>blank = NUL\<close>); each returned sequence is the element's token record,
  cut at its valid length and filtered, so the order of the remaining tokens is kept.
\<close>

theorem no_blank_in_output:
  assumes "greedy_decode M xs xlen = Inr (ys, sc)"
  shows "(\<forall>seq\<in>set ys. blank M \<notin> set seq) \<and>
         (blank M = NUL \<longrightarrow> (\<forall>seq\<in>set ys. 0 \<notin> set seq)) \<and>
         (\<exists>rec lp. greedy_run M xs = Inr (rec, lp) \<and>
            (\<forall>b<length ys. ys ! b = filter (\<lambda>tok. tok \<noteq> blank M) (slice_to (rec ! b) (xlen ! b)) \<and>
                           subseq (ys ! b) (rec ! b)))"
proof -
  from assms obtain rec lp where run: "greedy_run M xs = Inr (rec, lp)"
    and ys: "ys = map (\<lambda>(seq, seq_len). filter (\<lambda>tok. tok \<noteq> blank M) (slice_to seq seq_len))
                    (zip rec xlen)"
    by (auto simp: greedy_decode_run)
  have nb: "\<forall>seq\<in>set ys. blank M \<notin> set seq"
    by (auto simp: ys)
  have sl: "subseq (slice_to s n) s" for s :: "nat list" and n
    by (metis slice_to_def append_take_drop_id prefix_def prefix_imp_subseq)
  have el: "ys ! b = filter (\<lambda>tok. tok \<noteq> blank M) (slice_to (rec ! b) (xlen ! b)) \<and>
            subseq (ys ! b) (rec ! b)" if "b < length ys" for b
  proof -
    from that have "ys ! b = filter (\<lambda>tok. tok \<noteq> blank M) (slice_to (rec ! b) (xlen ! b))"
      by (simp add: ys)
    moreover have "subseq (filter (\<lambda>tok. tok \<noteq> blank M) (slice_to (rec ! b) (xlen ! b))) (rec ! b)"
      using subseq_filter_left sl subseq_order.order_trans by blast
    ultimately show ?thesis by simp
  qed
  from el run have "\<exists>rec lp. greedy_run M xs = Inr (rec, lp) \<and>
            (\<forall>b<length ys. ys ! b = filter (\<lambda>tok. tok \<noteq> blank M) (slice_to (rec ! b) (xlen ! b)) \<and>
                           subseq (ys ! b) (rec ! b))"
    by blast
  moreover from nb have "blank M = NUL \<longrightarrow> (\<forall>seq\<in>set ys. 0 \<notin> set seq)"
    by (auto simp: NUL_def)
  ultimately show ?thesis using nb by blast
qed

theorem no_blank_in_output_witness:
  "greedy_decode demo_model demo_xs [5, 3, 5] =
     Inr ([[3], [3], [3]], [- (5 * demo_logp), - (5 * demo_logp), - (5 * demo_logp)]) \<and>
   blank demo_model \<notin> set [3]"
  using no_blank_in_output[OF demo_decode] demo_decode by simp

lemma slice_to_length:
  "0 \<le> n \<Longrightarrow> nat n \<le> length seq \<Longrightarrow> length (slice_to seq n) = nat n"
  by (simp add: slice_to_def)

text \<open>
  Claim C4. For an element \<open>b\<close> of a rectangular batch with valid length \<open>0 \<le> L < T\<close>, the
  token record that is filtered has exactly \<open>L\<close> entries, and a second batch of the same shape
  whose element \<open>b\<close> has the same first \<open>L\<close> frames (any padding after them) yields the same
  token sequence for \<open>b\<close>.
\<close>

theorem truncation_and_padding_invariance:
  assumes run: "greedy_run M xs = Inr (rec, lp)"
    and dec: "greedy_decode M xs xlen = Inr (ys, sc)"
    and dec': "greedy_decode M xs' xlen = Inr (ys', sc')"
    and rect: "rect xs" "rect xs'" and same: "length xs' = length xs"
    and b: "b < length xs" "b < length xlen"
    and L: "0 \<le> xlen ! b" "nat (xlen ! b) < shape1 xs"
    and agree: "take (nat (xlen ! b)) (xs' ! b) = take (nat (xlen ! b)) (xs ! b)"
  shows "length (slice_to (rec ! b) (xlen ! b)) = nat (xlen ! b) \<and>
         ys ! b = filter (\<lambda>tok. tok \<noteq> blank M) (slice_to (rec ! b) (xlen ! b)) \<and>
         ys' ! b = ys ! b"
proof -
  define n where "n = nat (xlen ! b)"
  from dec' obtain rec' lp' where run': "greedy_run M xs' = Inr (rec', lp')"
    and ys': "ys' = map (\<lambda>(seq, seq_len). filter (\<lambda>tok. tok \<noteq> blank M) (slice_to seq seq_len))
                      (zip rec' xlen)"
    by (auto simp: greedy_decode_run)
  from dec run have
    ys: "ys = map (\<lambda>(seq, seq_len). filter (\<lambda>tok. tok \<noteq> blank M) (slice_to seq seq_len))
                  (zip rec xlen)"
    by (auto simp: greedy_decode_run)
  have lrec: "length rec = length xs" using greedy_run_shape[OF run] by simp
  have lrec': "length rec' = length xs" using greedy_run_shape[OF run'] same by simp
  have b': "b < length xs'" using b(1) same by simp
  have r: "rec ! b = map snd (trace_one M (xs ! b))"
    using greedy_run_elem[OF run rect(1) b(1)] by simp
  have r': "rec' ! b = map snd (trace_one M (xs' ! b))"
    using greedy_run_elem[OF run' rect(2) b'] by simp
  have "length (xs ! b) = shape1 xs" using rect(1) b(1) by (simp add: rect_def)
  then have "length (rec ! b) = shape1 xs" by (simp add: r trace_one_length)
  then have len: "length (slice_to (rec ! b) (xlen ! b)) = nat (xlen ! b)"
    using L by (simp add: slice_to_length)
  have yb: "ys ! b = filter (\<lambda>tok. tok \<noteq> blank M) (slice_to (rec ! b) (xlen ! b))"
    using b lrec by (simp add: ys)
  have yb': "ys' ! b = filter (\<lambda>tok. tok \<noteq> blank M) (slice_to (rec' ! b) (xlen ! b))"
    using b lrec' by (simp add: ys')
  have "take n (trace_one M (xs' ! b)) = take n (trace_one M (xs ! b))"
    using agree unfolding n_def trace_one_take[symmetric] by simp
  then have "take n (rec' ! b) = take n (rec ! b)"
    by (simp add: r r' take_map)
  then have "slice_to (rec' ! b) (xlen ! b) = slice_to (rec ! b) (xlen ! b)"
    using L(1) by (simp add: slice_to_def n_def)
  with len yb yb' show ?thesis by simp
qed

lemma greedy_step_unfold:
  assumes "greedy_step M enc_i st = Inr st'"
  obtains pred prob new_h_pre new_h new_c where
    "pred = map argmax (map log_softmax (map (joint M) (map2 vadd enc_i (map (\<lambda>r. r ! 0) (h_pre st)))))"
    "lstm (dec_cells M) (map (\<lambda>p. [embed M p]) pred) (h st, c st) = (new_h_pre, (new_h, new_c))"
    "st' = \<lparr> h_pre = mask_assign (blank M) pred (h_pre st) new_h_pre,
            h = map (\<lambda>(old, new). mask_assign (blank M) pred old new) (zip (h st) new_h),
            c = map (\<lambda>(old, new). mask_assign (blank M) pred old new) (zip (c st) new_c),
            y_seq = y_seq st @ [pred],
            log_p = log_p st @ [prob] \<rparr>"
  using assms unfolding greedy_step_def Let_def
  by (auto split: if_splits prod.splits)

text \<open>
  Claim C2. At a step of the greedy loop, from any state the loop reaches: the chosen token
  of element \<open>b\<close> is the arg-max of its log-softmax row; if it is blank, the predictor output
  and the state \<open>(h, c)\<close> of every layer \<open>l\<close> stay as they were for that element; otherwise
  they are the candidate values that the decoder returned for the chosen tokens.
\<close>

theorem blank_keeps_predictor_state:
  assumes reach: "greedy_loop M h_enc is (decoder_init M B) = Inr st" and lh: "length h_enc = B"
    and step: "greedy_step M enc_i st = Inr st'" and le: "length enc_i = B"
    and cand: "lstm (dec_cells M) (map (\<lambda>p. [embed M p]) (last (y_seq st'))) (h st, c st)
                 = (new_h_pre, (new_h, new_c))"
    and b: "b < B" and l: "l < length (dec_cells M)"
  shows "last (y_seq st') ! b = argmax (log_softmax (joint M (vadd (enc_i ! b) (h_pre st ! b ! 0)))) \<and>
    (last (y_seq st') ! b = blank M \<longrightarrow>
       h_pre st' ! b = h_pre st ! b \<and> h st' ! l ! b = h st ! l ! b \<and> c st' ! l ! b = c st ! l ! b) \<and>
    (last (y_seq st') ! b \<noteq> blank M \<longrightarrow>
       h_pre st' ! b = new_h_pre ! b \<and> h st' ! l ! b = new_h ! l ! b \<and> c st' ! l ! b = new_c ! l ! b)"
proof -
  have wf0: "wf_state M B (decoder_init M B)" using decoder_init_elem[of M B] by simp
  have wf: "wf_state M B st" using greedy_loop_elem[OF reach wf0 lh] by simp
  from wf have hp: "length (h_pre st) = B"
    and hl: "length (h st) = length (dec_cells M)" and cl: "length (c st) = length (dec_cells M)"
    and hB: "\<forall>r\<in>set (h st). length r = B" and cB: "\<forall>r\<in>set (c st). length r = B"
    by (simp_all add: wf_state_def)
  from step obtain pred prob nhp nh nc where
    pred: "pred = map argmax (map log_softmax (map (joint M) (map2 vadd enc_i (map (\<lambda>r. r ! 0) (h_pre st)))))"
    and L: "lstm (dec_cells M) (map (\<lambda>p. [embed M p]) pred) (h st, c st) = (nhp, (nh, nc))"
    and st': "st' = \<lparr> h_pre = mask_assign (blank M) pred (h_pre st) nhp,
            h = map (\<lambda>(old, new). mask_assign (blank M) pred old new) (zip (h st) nh),
            c = map (\<lambda>(old, new). mask_assign (blank M) pred old new) (zip (c st) nc),
            y_seq = y_seq st @ [pred],
            log_p = log_p st @ [prob] \<rparr>"
    by (rule greedy_step_unfold)
  have last: "last (y_seq st') = pred" by (simp add: st')
  from cand L have eq: "nhp = new_h_pre" "nh = new_h" "nc = new_c" by (simp_all add: last)
  have lpred: "length pred = B" using hp le by (simp add: pred)
  have lemb: "length (map (\<lambda>p. [embed M p]) pred) = B" using lpred by simp
  note E = lstm_elem[OF L lemb hB cB]
  from E hl cl have nl: "length nh = length (dec_cells M)" "length nc = length (dec_cells M)"
    by simp_all
  from E have nhpB: "length nhp = B" by simp
  have hlB: "length (h st ! l) = B" "length (nh ! l) = B"
    using hB hl nl l E by (simp_all add: all_set_conv_all_nth)
  have clB: "length (c st ! l) = B" "length (nc ! l) = B"
    using cB cl nl l E by (simp_all add: all_set_conv_all_nth)
  have predb: "pred ! b = argmax (log_softmax (joint M (vadd (enc_i ! b) (h_pre st ! b ! 0))))"
    using b hp le by (simp add: pred)
  have p1: "h_pre st' ! b = (if pred ! b \<noteq> blank M then nhp ! b else h_pre st ! b)"
    unfolding st' using mask_assign_nth[OF lpred hp nhpB b] by simp
  have p2: "h st' ! l ! b = (if pred ! b \<noteq> blank M then nh ! l ! b else h st ! l ! b)"
    unfolding st' using mask_assign_nth[OF lpred hlB b] l hl nl by simp
  have p3: "c st' ! l ! b = (if pred ! b \<noteq> blank M then nc ! l ! b else c st ! l ! b)"
    unfolding st' using mask_assign_nth[OF lpred clB b] l cl nl by simp
  show ?thesis
    unfolding last using predb p1 p2 p3 eq by simp
qed

theorem mismatch_drops_elements_counterexample:
  "length demo_xs \<noteq> length [5::int] \<and>
   greedy_decode demo_model demo_xs [5] =
     Inr ([[3]], [- (5 * demo_logp), - (5 * demo_logp), - (5 * demo_logp)])"
  unfolding greedy_decode_def demo_run
  by (simp add: slice_to_def demo_model_simps demo_shape)

text \<open>
  Claim C7, as amended; the claim as stated fails (three batch elements with one valid
  length are decoded without an error). Whatever the number of valid lengths, a batch with
  at least one frame on a joint network with a non-empty vocabulary is decoded without an
  error: the token list has as many entries as the shorter of batch and valid lengths, the
  other elements are dropped, and the score vector has one entry per batch element.
\<close>

theorem mismatch_returns_shorter_list:
  assumes "\<forall>v. joint M v \<noteq> []" and "0 < shape1 xs"
  shows "\<exists>ys sc. greedy_decode M xs xlen = Inr (ys, sc) \<and>
           length ys = min (length xs) (length xlen) \<and> length sc = length xs"
proof -
  from greedy_run_total[OF assms] obtain rec lp where run: "greedy_run M xs = Inr (rec, lp)"
    by blast
  from greedy_run_shape[OF run] have "length rec = length xs" "length lp = length xs"
    by simp_all
  then show ?thesis
    unfolding greedy_decode_def run by simp
qed

theorem mismatch_returns_shorter_list_witness:
  "\<exists>ys sc. greedy_decode demo_model demo_xs [5] = Inr (ys, sc) \<and>
           length ys = min (length demo_xs) (length [5::int]) \<and> length sc = length demo_xs"
proof -
  have j: "\<forall>v. joint demo_model v \<noteq> []"
    by (simp add: demo_model_simps demo_joint_def)
  have t: "0 < shape1 demo_xs"
    by (simp add: demo_shape)
  show ?thesis
    using mismatch_returns_shorter_list[OF j t, of "[5]"] .
qed

lemma demo_init2: "decoder_init demo_model 2 = demo_st0"
  by (simp add: decoder_init_def demo_model_def zeros_def lstm_layer_def
      demo_dec_cell_def Let_def BOS_def numeral_2_eq_2 demo_st0_def)

lemma demo_step2: "greedy_step demo_model [[0], [1]] demo_st0 = Inr demo_st1"
  by (simp add: greedy_step_def demo_model_simps demo_joint_probs vadd_def
      demo_joint_probs(3)[THEN not_sym] demo_st0_def demo_st1_def
      lstm_layer_def demo_dec_cell_def mask_assign_def Let_def)

lemma demo_cand2:
  "lstm (dec_cells demo_model) (map (\<lambda>p. [embed demo_model p]) (last (y_seq demo_st1)))
     (h demo_st0, c demo_st0) = ([[[0]], [[0]]], ([[[0], [0]]], [[[4], [7]]]))"
  by (simp add: demo_model_simps demo_st0_def demo_st1_def lstm_layer_def demo_dec_cell_def Let_def)

theorem blank_keeps_predictor_state_witness:
  "greedy_step demo_model [[0], [1]] demo_st0 = Inr demo_st1 \<and>
   last (y_seq demo_st1) = [0, 3] \<and> blank demo_model = 0 \<and>
   c demo_st0 = [[[3], [3]]] \<and> c demo_st1 = [[[3], [7]]] \<and>
   c demo_st1 ! 0 ! 0 = c demo_st0 ! 0 ! 0 \<and> c demo_st1 ! 0 ! 1 = [[[4], [7]]] ! 0 ! 1"
proof -
  have reach: "greedy_loop demo_model [[], []] [] (decoder_init demo_model 2) = Inr demo_st0"
    by (simp add: demo_init2)
  have l0: "(0::nat) < length (dec_cells demo_model)"
    by (simp add: demo_model_simps)
  have len: "length [[], []::vec list] = 2" "length [[0], [1::real]] = 2"
    by simp_all
  have b0: "(0::nat) < 2" and b1: "(1::nat) < 2" by simp_all
  note T0 = blank_keeps_predictor_state[OF reach len(1) demo_step2 len(2) demo_cand2 b0 l0]
  note T1 = blank_keeps_predictor_state[OF reach len(1) demo_step2 len(2) demo_cand2 b1 l0]
  have y: "last (y_seq demo_st1) = [0, 3]" by (simp add: demo_st1_def)
  have bl: "blank demo_model = 0" by (simp add: demo_model_simps)
  from T0 y bl have "c demo_st1 ! 0 ! 0 = c demo_st0 ! 0 ! 0" by simp
  moreover from T1 y bl have "c demo_st1 ! 0 ! 1 = [[[4], [7]]] ! 0 ! 1" by simp
  ultimately show ?thesis
    using demo_step2 y bl by (simp add: demo_st0_def demo_st1_def)
qed

lemma demo_rect_padded: "rect demo_xs_padded" "length demo_xs_padded = length demo_xs"
  by (simp_all add: rect_def shape1_def demo_xs_padded_def demo_xs_def)

lemma demo_encoder_padded: "encoder demo_model demo_xs_padded = demo_xs_padded"
  by (simp add: encoder_def demo_model_def demo_xs_padded_def zeros_def lstm_layer_def
      demo_enc_cell_def Let_def)

lemma demo_loop_padded:
  "greedy_loop demo_model demo_xs_padded [0..<5] (decoder_init demo_model 3) =
   Inr \<lparr> h_pre = [[[0]], [[0]], [[0]]], h = [[[0], [0], [0]]], c = [[[7], [15], [7]]],
         y_seq = [[0, 0, 0], [0, 0, 0], [3, 3, 3], [0, 3, 0], [0, 3, 0]],
         log_p = replicate 5 (replicate 3 demo_logp) \<rparr>"
  unfolding demo_init upt_5
  by (simp add: greedy_step_def demo_model_simps demo_joint_probs demo_xs_padded_def vadd_def
      demo_joint_probs(3)[THEN not_sym]
      lstm_layer_def demo_dec_cell_def mask_assign_def Let_def numeral_eq_Suc)

lemma demo_decode_padded:
  "greedy_decode demo_model demo_xs_padded [5, 3, 5] =
   Inr ([[3], [3], [3]], [- (5 * demo_logp), - (5 * demo_logp), - (5 * demo_logp)])"
proof -
  have s: "shape1 demo_xs_padded = 5" "length demo_xs_padded = 3"
    by (simp_all add: shape1_def demo_xs_padded_def)
  have "greedy_run demo_model demo_xs_padded =
     Inr ([[0, 0, 3, 0, 0], [0, 0, 3, 3, 3], [0, 0, 3, 0, 0]],
          [5 * demo_logp, 5 * demo_logp, 5 * demo_logp])"
    unfolding greedy_run_def demo_encoder_padded Let_def s demo_loop_padded
    by (simp add: stack1_def shape1_def numeral_eq_Suc upt_rec)
  then show ?thesis
    unfolding greedy_decode_def by (simp add: slice_to_def demo_model_simps)
qed

theorem truncation_and_padding_invariance_witness:
  "greedy_decode demo_model demo_xs [5, 3, 5] =
     Inr ([[3], [3], [3]], [- (5 * demo_logp), - (5 * demo_logp), - (5 * demo_logp)]) \<and>
   greedy_decode demo_model demo_xs_padded [5, 3, 5] =
     Inr ([[3], [3], [3]], [- (5 * demo_logp), - (5 * demo_logp), - (5 * demo_logp)]) \<and>
   demo_xs_padded ! 1 \<noteq> demo_xs ! 1 \<and>
   length (slice_to ([0, 0, 3, 0, 0] :: nat list) 3) = 3 \<and>
   [3] = filter (\<lambda>tok. tok \<noteq> blank demo_model) (slice_to [0, 0, 3, 0, 0] 3)"
proof -
  have b: "1 < length demo_xs" "1 < length [5, 3, 5::int]"
    by (simp_all add: demo_shape)
  have L: "0 \<le> [5, 3, 5::int] ! 1" "nat ([5, 3, 5::int] ! 1) < shape1 demo_xs"
    by (simp_all add: demo_shape)
  have agree: "take (nat ([5, 3, 5::int] ! 1)) (demo_xs_padded ! 1)
                = take (nat ([5, 3, 5::int] ! 1)) (demo_xs ! 1)"
    by (simp add: demo_xs_padded_def demo_xs_def numeral_3_eq_3)
  have diff: "demo_xs_padded ! 1 \<noteq> demo_xs ! 1"
    by (simp add: demo_xs_padded_def demo_xs_def)
  from truncation_and_padding_invariance[OF demo_run demo_decode demo_decode_padded
      demo_rect demo_rect_padded b L agree]
  show ?thesis
    using demo_decode demo_decode_padded diff by simp
qed

text \<open>
  Claim C5 fails on the code. In a stack of two pass-through layers whose per-layer module
  doubles its input, \<open>forward\<close> returns the input \<open>1\<close> unchanged, where applying each layer's
  module after its recurrent layer gives \<open>4\<close>: the loop never calls \<open>proj\<close>.
\<close>

theorem layer_stack_skips_projection:
  "LayerNormRNN_forward demo_stack [[[1]]] None =
     Inr ([[[1]]], ([[[[1]]], [[[1]]]], [[[[0]]], [[[0]]]])) \<and>
   double_proj (fst (rnn_apply 1 pass_cell (double_proj (fst (rnn_apply 1 pass_cell [[[1]]] None))) None))
     = [[[4]]]"
  by (simp add: LayerNormRNN_forward_def demo_stack_def rnn_apply_def zeros_def lstm_layer_def
      pass_cell_def double_proj_def Let_def numeral_2_eq_2)

lemma fold_zip_ignore_middle:
  assumes "length ps = length qs" and "\<And>r p q hid a. F (r, p, hid) a = F (r, q, hid) a"
  shows "fold F (zip rs (zip ps hs)) acc = fold F (zip rs (zip qs hs)) acc"
  using assms(1)
proof (induction ps qs arbitrary: rs hs acc rule: list_induct2)
  case Nil
  then show ?case by simp
next
  case (Cons p ps q qs)
  show ?case
  proof (cases rs)
    case Nil
    then show ?thesis by simp
  next
    case rs: (Cons r rs')
    show ?thesis
    proof (cases hs)
      case Nil
      then show ?thesis by simp
    next
      case hs: (Cons hid hs')
      show ?thesis
        unfolding rs hs using Cons.IH[of rs' hs' "F (r, q, hid) acc"] assms(2)[of r p hid acc q]
        by simp
    qed
  qed
qed

lemma LayerNormRNN_forward_ignores_projs:
  assumes "length ps = length (projs self)"
  shows "LayerNormRNN_forward (self\<lparr>projs := ps\<rparr>) xs hiddens = LayerNormRNN_forward self xs hiddens"
proof -
  have sel: "rnns (self\<lparr>projs := ps\<rparr>) = rnns self" "projs (self\<lparr>projs := ps\<rparr>) = ps"
    "rnn_hidden_size (self\<lparr>projs := ps\<rparr>) = rnn_hidden_size self"
    by simp_all
  show ?thesis
    unfolding LayerNormRNN_forward_def sel
    by (subst fold_zip_ignore_middle[OF assms]) simp_all
qed

text \<open>
  Claim C6 fails on the code. For every factor of at least one and every input, the call
  to \<open>nn.functional.pad\<close> raises, as it is given the nested list: no time axis is padded
  and no group mean is returned; so it is for factor 2 on three frames.
\<close>

theorem time_reduction_pad_raises:
  "TimeReduction_forward 2 [[[1], [2], [3]]] = Inl TypeError \<and>
   TimeReduction_forward (Suc r) xs = Inl TypeError"
  by (simp add: TimeReduction_forward_def functional_pad_def Let_def)

text \<open>
  Claim C8 fails on the code. The first ordinary character gets the id \<open>0 + 4\<close>, the id of
  the reserved token \<open>UNK\<close>.
\<close>

theorem first_character_gets_unk_id:
  "CharTokenizer_token2id ''a'' = Some 4 \<and> DEFAULT_TOKEN2ID UNK_token = Some 4 \<and> UNK = 4"
  by (simp add: CharTokenizer_token2id_def DEFAULT_TOKEN2ID_def valid_tokens_def
      ascii_lowercase_def punctuation_def enumerate_eq_zip upt_rec UNK_def UNK_token_def
      NUL_token_def PAD_token_def BOS_token_def EOS_token_def)

end
